theory Spec2Isabelle
  imports Complex_Main "HOL-Library.Word" "HOL-Library.Signed_Division"
begin

section \<open>Mudras: hand-controlled CV sequencer\<close>

text \<open>
  The firmware exists in several revisions. The revision with the reset input, the
  audio-taper threshold tables and the generated scale tables is embedded first (its
  names are kept as they are); the parts of the earlier \<^verbatim>\<open>mudras.ino\<close> that differ
  and matter below are embedded afterwards with the suffix \<open>_ino\<close>.
\<close>

subsection \<open>Machine types and undefined behaviour\<close>

type_synonym uint8_t = "8 word"
type_synonym uint16_t = "16 word"
type_synonym uint32_t = "32 word"

text \<open>
  An array access outside its bounds and a float-to-unsigned conversion outside the
  unsigned range are undefined in C++. Each is a branch of the model returning an error.
\<close>

datatype error =
    PatternIndexOutOfBounds nat
  | SequenceIndexOutOfBounds int
  | ScaleIndexOutOfBounds int int
  | FloatNotFinite
  | FloatToUintUndefined int

subsection \<open>Scale table generator (scales.cpp)\<close>

definition ScaleTypeCount :: uint8_t where
  "ScaleTypeCount = 7"

text \<open>
  \<^verbatim>\<open>const uint8_t scalePatterns[ScaleTypeCount][12]\<close>: every row has 12 entries, the
  entries not written in the initialiser are zero. The rows are indexed by
  \<^verbatim>\<open>enum ScaleType\<close>: Major is 0, Minor 1, MinorPentatonic 2, HarmonicMinor 3,
  Diminished 4, WholeTone 5 and Chromatic 6.
\<close>

definition scalePatterns :: "uint8_t list list" where
  "scalePatterns =
    [[0, 2, 4, 5, 7, 9, 11, 255, 0, 0, 0, 0],
     [0, 2, 3, 5, 7, 8, 10, 255, 0, 0, 0, 0],
     [0, 3, 5, 7, 10, 255, 0, 0, 0, 0, 0, 0],
     [0, 2, 3, 5, 7, 8, 11, 255, 0, 0, 0, 0],
     [0, 1, 3, 4, 6, 7, 9, 10, 255, 0, 0, 0],
     [0, 2, 4, 6, 8, 10, 255, 0, 0, 0, 0, 0],
     [0, 1, 2, 3, 4, 5, 6, 7, 8, 9, 10, 11]]"

definition pattern_at :: "uint8_t list \<Rightarrow> uint8_t \<Rightarrow> error + uint8_t" where
  "pattern_at pat patternIndex =
     (if unat patternIndex < length pat then Inr (pat ! unat patternIndex)
      else Inl (PatternIndexOutOfBounds (unat patternIndex)))"

text \<open>
  The \<^verbatim>\<open>while (noteIndex < 37)\<close> loop of \<^verbatim>\<open>generateFullScales\<close> for one scale.
  It returns the final \<open>noteIndex\<close> and the row written so far; \<^verbatim>\<open>break\<close> is the
  branch that returns without a recursive call. At the sentinel the source sets
  \<open>patternIndex\<close> to 0, increments \<open>octave\<close> and recomputes \<open>octaveMultiplier\<close>
  before it tests \<^verbatim>\<open>octave >= 4\<close>; the note written next is read at index 0.
\<close>

function generate_while ::
  "uint8_t list \<Rightarrow> uint8_t \<Rightarrow> uint8_t \<Rightarrow> uint8_t \<Rightarrow> uint8_t \<Rightarrow> uint8_t list
     \<Rightarrow> error + (uint8_t \<times> uint8_t list)" where
  "generate_while pat noteIndex patternIndex octave octaveMultiplier row =
     (if noteIndex < 37 then
        (case pattern_at pat patternIndex of
           Inl e \<Rightarrow> Inl e
         | Inr p \<Rightarrow>
             if p = 255 then
               (if octave + 1 \<ge> 4 then Inr (noteIndex, row)
                else
                  (case pattern_at pat 0 of
                     Inl e \<Rightarrow> Inl e
                   | Inr q \<Rightarrow>
                       generate_while pat (noteIndex + 1) (0 + 1) (octave + 1) ((octave + 1) * 12)
                         (row[unat noteIndex := q + (octave + 1) * 12])))
             else
               generate_while pat (noteIndex + 1) (patternIndex + 1) octave octaveMultiplier
                 (row[unat noteIndex := p + octaveMultiplier]))
      else Inr (noteIndex, row))"
  by pat_completeness auto

termination generate_while
  by (relation "measure (\<lambda>(pat, noteIndex, patternIndex, octave, octaveMultiplier, row). 37 - unat noteIndex)")
     (auto simp: word_less_nat_alt unat_word_ariths)

declare generate_while.simps [simp del]

text \<open>\<^verbatim>\<open>memset(&row[start], v, n)\<close> inside one row.\<close>

definition memset :: "uint8_t list \<Rightarrow> nat \<Rightarrow> uint8_t \<Rightarrow> nat \<Rightarrow> uint8_t list" where
  "memset row start v n = take start row @ replicate n v @ drop (start + n) row"

text \<open>The body of the \<^verbatim>\<open>for\<close> loop: one scale's row of \<open>fullScales\<close>.\<close>

definition generateScale :: "uint8_t list \<Rightarrow> uint8_t list \<Rightarrow> error + uint8_t list" where
  "generateScale pat row =
     (case generate_while pat 0 0 0 0 row of
        Inl e \<Rightarrow> Inl e
      | Inr (noteIndex, row') \<Rightarrow> Inr (memset row' (unat noteIndex) 36 (37 - unat noteIndex)))"

text \<open>
  The \<^verbatim>\<open>for\<close> loop over \<open>scaleIndex\<close>, writing the rows of \<open>fullScales\<close> in turn.
  The bound of the loop is an argument, so that the passes before the last one can be
  stated; the source runs it from 0 to \<open>ScaleTypeCount\<close>.
\<close>

function generate_for ::
  "uint8_t \<Rightarrow> uint8_t \<Rightarrow> uint8_t list list \<Rightarrow> error + uint8_t list list" where
  "generate_for scaleIndex bound fs =
     (if scaleIndex < bound then
        (case generateScale (scalePatterns ! unat scaleIndex) (fs ! unat scaleIndex) of
           Inl e \<Rightarrow> Inl e
         | Inr row \<Rightarrow> generate_for (scaleIndex + 1) bound (fs[unat scaleIndex := row]))
      else Inr fs)"
  by pat_completeness auto

termination generate_for
proof (relation "measure (\<lambda>(scaleIndex, bound, fs). unat bound - unat scaleIndex)")
  show "wf (measure (\<lambda>(scaleIndex, bound, fs). unat bound - unat scaleIndex))"
    by simp
next
  fix scaleIndex bound :: uint8_t and fs :: "uint8_t list list" and row :: "uint8_t list"
  assume "scaleIndex < bound"
  then have less: "unat scaleIndex < unat bound"
    by (simp add: word_less_nat_alt)
  have "unat bound < 256"
    using unsigned_less [of bound] by simp
  with less have "unat (scaleIndex + 1) = unat scaleIndex + 1"
    by (simp add: unat_word_ariths)
  with less show "((scaleIndex + 1, bound, fs[unat scaleIndex := row]), scaleIndex, bound, fs)
      \<in> measure (\<lambda>(scaleIndex, bound, fs). unat bound - unat scaleIndex)"
    by simp
qed

declare generate_for.simps [simp del]

text \<open>
  The number of semitone offsets of a pattern row in front of the sentinel 255 (the
  \<open>patternLength\<close> of the specification).
\<close>

definition patternLength :: "uint8_t list \<Rightarrow> nat" where
  "patternLength pat = length (takeWhile (\<lambda>p. p \<noteq> 255) pat)"

subsection \<open>Value mapper\<close>

text \<open>
  Modelled from the spec: the Arduino core's \<^verbatim>\<open>map()\<close> and \<^verbatim>\<open>constrain()\<close> are not
  under src/. The specification describes them as the affine rescale of an input range
  to an output range, and as the clamp to a range. \<open>map_long\<close> is the core's formula
  \<^verbatim>\<open>(x - in_min) * (out_max - out_min) / (in_max - in_min) + out_min\<close> on \<^verbatim>\<open>long\<close>,
  with C's division, which truncates towards zero (\<open>sdiv\<close>). \<open>constrain\<close> is a macro,
  an expression whose value is lost unless it is assigned. The 32-bit width of
  \<^verbatim>\<open>long\<close> is not modelled: at every call below the operands are at most 16-bit
  readings and 12-bit ranges.
\<close>

definition map_long :: "int \<Rightarrow> int \<Rightarrow> int \<Rightarrow> int \<Rightarrow> int \<Rightarrow> int" where
  "map_long x in_min in_max out_min out_max =
     (x - in_min) * (out_max - out_min) sdiv (in_max - in_min) + out_min"

definition constrain :: "int \<Rightarrow> int \<Rightarrow> int \<Rightarrow> int" where
  "constrain amt low high = (if amt < low then low else if amt > high then high else amt)"

subsection \<open>CV codec\<close>

text \<open>
  A \<^verbatim>\<open>float\<close> is modelled by the rational number it denotes. Every floating-point
  operation is the exact operation followed by the rounding \<open>rnd\<close> of the platform (to
  the precision of \<^verbatim>\<open>float\<close>, before the exponent range is applied), which is a
  parameter of the model. A rounded result beyond \<open>FLT_MAX\<close> in magnitude is an infinity
  in the source. In \<^verbatim>\<open>volts_to_DAC\<close>, whose arguments are finite, an infinite
  difference \<^verbatim>\<open>volts - min_volt\<close>, a range of zero, an infinite quotient and an
  infinite product all end in an infinity or a NaN, whose conversion to an unsigned
  integer is undefined; an infinite range under a finite difference gives the quotient
  zero. The conversion of a value of \<open>-1\<close> or less, or beyond 32 bits, is undefined as
  well.
\<close>

definition FLT_MAX :: rat where
  "FLT_MAX = (2 ^ 24 - 1) * 2 ^ 104"

definition overflows :: "rat \<Rightarrow> bool" where
  "overflows x \<longleftrightarrow> \<bar>x\<bar> > FLT_MAX"

definition RESOLUTION_12_BIT :: uint32_t where
  "RESOLUTION_12_BIT = 4096"

definition semitones_per_octave :: "(rat \<Rightarrow> rat) \<Rightarrow> rat" where
  "semitones_per_octave rnd = rnd 12"

definition volts_per_semitone :: "(rat \<Rightarrow> rat) \<Rightarrow> rat" where
  "volts_per_semitone rnd = rnd (rnd 1 / semitones_per_octave rnd)"

text \<open>The calibration offset \<^verbatim>\<open>float fix = 0.000\<close> (\<open>fix\<close> is a keyword here).\<close>

definition fix_cal :: "(rat \<Rightarrow> rat) \<Rightarrow> rat" where
  "fix_cal rnd = rnd 0"

definition volts_to_DAC ::
  "(rat \<Rightarrow> rat) \<Rightarrow> rat \<Rightarrow> uint32_t \<Rightarrow> rat \<Rightarrow> rat \<Rightarrow> error + uint32_t" where
  "volts_to_DAC rnd volts resolution min_volt max_volt =
     (let volt_range = rnd (max_volt - min_volt);
          difference = rnd (volts - min_volt)
      in if overflows difference \<or> volt_range = 0 then Inl FloatNotFinite
         else
           (let normalized_value =
                  (if overflows volt_range then 0 else rnd (difference / volt_range))
            in if overflows normalized_value then Inl FloatNotFinite
               else
                 (let product = rnd (normalized_value * rnd (of_nat (unat (resolution - 1))))
                  in if overflows product then Inl FloatNotFinite
                     else
                       (let dacUnit = \<lceil>product\<rceil>
                        in if 0 \<le> dacUnit \<and> dacUnit < 2 ^ 32 then Inr (word_of_int dacUnit)
                           else Inl (FloatToUintUndefined dacUnit)))))"

definition midi_note_to_volts :: "(rat \<Rightarrow> rat) \<Rightarrow> uint32_t \<Rightarrow> rat" where
  "midi_note_to_volts rnd midi_note = rnd (rnd (of_nat (unat midi_note)) * volts_per_semitone rnd)"

subsection \<open>Sequencer state\<close>

text \<open>
  The global variables the sequencer reads and writes. \<open>PA4\<close> is the last code handed
  to \<^verbatim>\<open>analogWrite(PA4, _)\<close>, the CV output.
\<close>

record state =
  clockInput :: bool
  count :: uint8_t
  countSize :: uint8_t
  NoteMode :: int
  mm :: int
  raw_mm :: int
  dacU :: int
  sequence :: "uint8_t list"
  sequenceLinear :: "uint8_t list"
  NumberOfNotes :: uint8_t
  fullScales :: "uint8_t list list"
  PA4 :: int

text \<open>
  The values of the globals before \<^verbatim>\<open>setup()\<close> runs: the initialisers of the
  source, and zero for a global without one. \<^verbatim>\<open>uint8_t count = -1\<close> is 255.
\<close>

definition power_on :: state where
  "power_on =
     \<lparr>clockInput = False, count = - 1, countSize = 3, NoteMode = 0, mm = 0, raw_mm = 0,
      dacU = 0, sequence = replicate 64 0, sequenceLinear = replicate 64 0,
      NumberOfNotes = 0, fullScales = replicate 7 (replicate 37 0), PA4 = 0\<rparr>"

definition TopRange :: int where
  "TopRange = 700"

definition generateFullScales :: "state \<Rightarrow> error + state" where
  "generateFullScales st =
     (case generate_for 0 ScaleTypeCount (fullScales st) of
        Inl e \<Rightarrow> Inl e
      | Inr fs \<Rightarrow> Inr (st\<lparr>fullScales := fs\<rparr>))"

subsection \<open>Threshold tables of the two knobs\<close>

text \<open>\<open>scalemode\<close> and \<open>seqLength\<close> are the values of \<^verbatim>\<open>getValue()\<close>.\<close>

definition scaleMode :: "int \<Rightarrow> state \<Rightarrow> state" where
  "scaleMode scalemode st =
     (if scalemode < 18 then st\<lparr>NoteMode := 0, NumberOfNotes := 23\<rparr>
      else if scalemode > 18 \<and> scalemode \<le> 53 then st\<lparr>NoteMode := 1, NumberOfNotes := 23\<rparr>
      else if scalemode \<ge> 54 \<and> scalemode \<le> 105 then st\<lparr>NoteMode := 2, NumberOfNotes := 19\<rparr>
      else if scalemode \<ge> 106 \<and> scalemode \<le> 180 then st\<lparr>NoteMode := 3, NumberOfNotes := 23\<rparr>
      else if scalemode \<ge> 181 \<and> scalemode \<le> 227 then st\<lparr>NoteMode := 4, NumberOfNotes := 29\<rparr>
      else if scalemode \<ge> 228 \<and> scalemode \<le> 535 then st\<lparr>NoteMode := 5, NumberOfNotes := 20\<rparr>
      else if scalemode \<ge> 536 \<and> scalemode \<le> 799 then st\<lparr>NoteMode := 6, NumberOfNotes := 35\<rparr>
      else if scalemode \<ge> 800 then st\<lparr>NoteMode := 7\<rparr>
      else st)"

definition loopLength :: "int \<Rightarrow> state \<Rightarrow> state" where
  "loopLength seqLength st =
     (if seqLength \<le> 9 then st\<lparr>countSize := 1\<rparr>
      else if seqLength \<ge> 10 \<and> seqLength \<le> 45 then st\<lparr>countSize := 2\<rparr>
      else if seqLength \<ge> 46 \<and> seqLength \<le> 120 then st\<lparr>countSize := 3\<rparr>
      else if seqLength \<ge> 121 \<and> seqLength \<le> 210 then st\<lparr>countSize := 7\<rparr>
      else if seqLength \<ge> 211 \<and> seqLength \<le> 360 then st\<lparr>countSize := 15\<rparr>
      else if seqLength \<ge> 361 \<and> seqLength \<le> 799 then st\<lparr>countSize := 31\<rparr>
      else if seqLength \<ge> 800 then st\<lparr>countSize := 63\<rparr>
      else st)"

text \<open>
  What one pass of \<^verbatim>\<open>loop()\<close> reads from the hardware: for each knob the new value
  when \<^verbatim>\<open>hasChanged()\<close> holds, the range reading when \<^verbatim>\<open>isRangeComplete()\<close>
  holds, and whether the record button pin reads \<^verbatim>\<open>LOW\<close> (pressed).
\<close>

record inputs =
  scaleKnob :: "int option"
  noteSeqPot :: "int option"
  lox :: "uint16_t option"
  PB5_LOW :: bool

definition ReadKnobs :: "inputs \<Rightarrow> state \<Rightarrow> state" where
  "ReadKnobs inp st =
     (let st1 = (case scaleKnob inp of Some v \<Rightarrow> scaleMode v st | None \<Rightarrow> st)
      in case noteSeqPot inp of Some v \<Rightarrow> loopLength v st1 | None \<Rightarrow> st1)"

subsection \<open>Playing and recording a step\<close>

definition sequence_at :: "uint8_t list \<Rightarrow> uint8_t \<Rightarrow> error + uint8_t" where
  "sequence_at xs i =
     (if unat i < length xs then Inr (xs ! unat i)
      else Inl (SequenceIndexOutOfBounds (uint i)))"

definition sequence_store :: "uint8_t list \<Rightarrow> uint8_t \<Rightarrow> uint8_t \<Rightarrow> error + uint8_t list" where
  "sequence_store xs i v =
     (if unat i < length xs then Inr (xs[unat i := v])
      else Inl (SequenceIndexOutOfBounds (uint i)))"

definition fullScales_at :: "uint8_t list list \<Rightarrow> int \<Rightarrow> uint8_t \<Rightarrow> error + uint8_t" where
  "fullScales_at fs m i =
     (if 0 \<le> m \<and> nat m < length fs \<and> unat i < length (fs ! nat m) then Inr (fs ! nat m ! unat i)
      else Inl (ScaleIndexOutOfBounds m (uint i)))"

definition playSeq :: "(rat \<Rightarrow> rat) \<Rightarrow> state \<Rightarrow> error + state" where
  "playSeq rnd st =
     (if NoteMode st \<noteq> 7 then
        (case sequence_at (sequence st) (count st) of
           Inl e \<Rightarrow> Inl e
         | Inr i \<Rightarrow>
             (case fullScales_at (fullScales st) (NoteMode st) i of
                Inl e \<Rightarrow> Inl e
              | Inr n \<Rightarrow>
                  (case volts_to_DAC rnd (midi_note_to_volts rnd (ucast n)) RESOLUTION_12_BIT
                          (rnd 0) (rnd (rnd (33 / 10) + fix_cal rnd)) of
                     Inl e \<Rightarrow> Inl e
                   | Inr d \<Rightarrow> Inr (st\<lparr>dacU := sint d, PA4 := sint d\<rparr>))))
      else
        (case sequence_at (sequenceLinear st) (count st) of
           Inl e \<Rightarrow> Inl e
         | Inr lin \<Rightarrow> Inr (st\<lparr>PA4 := uint lin\<rparr>)))"

definition recordSeq :: "(rat \<Rightarrow> rat) \<Rightarrow> state \<Rightarrow> error + state" where
  "recordSeq rnd st =
     (if mm st > TopRange \<or> mm st < 50 then
        (case sequence_store (sequence st) (count st) (word_of_int 0) of
           Inl e \<Rightarrow> Inl e
         | Inr s \<Rightarrow> playSeq rnd (st\<lparr>mm := 0, sequence := s\<rparr>))
      else if NoteMode st \<noteq> 7 then
        (let m = constrain (map_long (mm st) 50 TopRange 0 (uint (NumberOfNotes st)))
                   0 (uint (NumberOfNotes st))
         in case sequence_store (sequence st) (count st) (word_of_int m) of
              Inl e \<Rightarrow> Inl e
            | Inr s \<Rightarrow> playSeq rnd (st\<lparr>mm := m, sequence := s\<rparr>))
      else
        (let r = constrain (map_long (mm st) 50 TopRange 0 4095) 0 4095
         in case sequence_store (sequenceLinear st) (count st) (word_of_int r) of
              Inl e \<Rightarrow> Inl e
            | Inr s \<Rightarrow> playSeq rnd (st\<lparr>raw_mm := r, sequenceLinear := s\<rparr>)))"

subsection \<open>Interrupt handlers, setup and the main loop\<close>

definition gate :: "state \<Rightarrow> state" where
  "gate st = st\<lparr>clockInput := True\<rparr>"

definition reset :: "state \<Rightarrow> state" where
  "reset st = st\<lparr>count := 0\<rparr>"

definition readsensor :: "uint16_t \<Rightarrow> state \<Rightarrow> state" where
  "readsensor reading st = st\<lparr>mm := uint reading\<rparr>"

text \<open>
  \<^verbatim>\<open>setup()\<close> with the two knob values read at its end (\<open>setup\<close> is a keyword
  here). A sensor that does not start leaves \<^verbatim>\<open>setup()\<close> in an endless loop,
  which is outside this model.
\<close>

definition setup_fw :: "int \<Rightarrow> int \<Rightarrow> state \<Rightarrow> error + state" where
  "setup_fw seqLength scalemode st =
     (case generateFullScales st of
        Inl e \<Rightarrow> Inl e
      | Inr st1 \<Rightarrow> Inr (scaleMode scalemode (loopLength seqLength (st1\<lparr>PA4 := 0\<rparr>))))"

definition incrementAndWrapCount :: "uint8_t \<Rightarrow> uint8_t \<Rightarrow> uint8_t" where
  "incrementAndWrapCount c maxSize = (if c + 1 > maxSize then 0 else c + 1)"

definition loop :: "(rat \<Rightarrow> rat) \<Rightarrow> inputs \<Rightarrow> state \<Rightarrow> error + state" where
  "loop rnd inp st =
     (let st1 = ReadKnobs inp st;
          st2 = (case lox inp of Some reading \<Rightarrow> readsensor reading st1 | None \<Rightarrow> st1)
      in if clockInput st2 then
           (case (if PB5_LOW inp then recordSeq rnd (st2\<lparr>clockInput := False\<rparr>)
                  else playSeq rnd (st2\<lparr>clockInput := False\<rparr>)) of
              Inl e \<Rightarrow> Inl e
            | Inr st3 \<Rightarrow> Inr (st3\<lparr>count := incrementAndWrapCount (count st3) (countSize st3)\<rparr>))
         else Inr st2)"

subsection \<open>The earlier revision \<^verbatim>\<open>mudras.ino\<close>\<close>

text \<open>
  This revision keeps the cursor and the sequence as \<^verbatim>\<open>int\<close>, maps the sensor
  reading in \<^verbatim>\<open>readsensor\<close>, and has the flag \<open>countFlag\<close> that remembers a clock
  edge handled in play mode. Its scale tables are written out by hand. The knob
  \<^verbatim>\<open>freqKnob\<close> is the field \<open>noteSeqPot\<close> of \<open>inputs\<close> and the button pin
  \<^verbatim>\<open>D4\<close> is \<open>PB5_LOW\<close>.
\<close>

record state_ino =
  poo :: bool
  count_ino :: int
  countFlag :: int
  NoteMode_ino :: int
  countSize_ino :: int
  mm_ino :: int
  raw_mm_ino :: int
  dacUnit :: int
  sequence_ino :: "int list"
  PA4_ino :: int

definition power_on_ino :: state_ino where
  "power_on_ino =
     \<lparr>poo = False, count_ino = - 1, countFlag = 0, NoteMode_ino = 0, countSize_ino = 3,
      mm_ino = 0, raw_mm_ino = 0, dacUnit = 0, sequence_ino = replicate 64 0, PA4_ino = 0\<rparr>"

definition scale_ino :: "int list list" where
  "scale_ino =
    [[0, 2, 4, 5, 7, 9, 11, 12, 14, 16, 17, 19, 21, 23, 24, 26, 28, 29, 31, 33, 35, 36, 36, 36],
     [0, 2, 4, 5, 7, 9, 10, 12, 14, 16, 17, 19, 21, 22, 24, 26, 28, 29, 31, 33, 34, 36, 36, 36],
     [0, 0, 3, 3, 5, 5, 7, 7, 10, 10, 12, 12, 15, 15, 17, 17, 19, 19, 22, 22, 24, 24, 27, 29],
     [0, 2, 3, 5, 7, 8, 11, 12, 14, 15, 17, 19, 20, 23, 24, 26, 27, 29, 31, 32, 35, 36, 36, 36],
     [0, 2, 3, 5, 7, 8, 10, 12, 14, 15, 17, 19, 20, 22, 24, 26, 27, 29, 31, 32, 34, 36, 36, 36],
     [0, 2, 4, 6, 8, 10, 12, 14, 16, 18, 20, 22, 24, 26, 28, 30, 32, 34, 36, 38, 38, 38, 38, 38],
     [0, 1, 2, 3, 4, 5, 6, 7, 8, 9, 10, 11, 12, 13, 14, 15, 16, 17, 18, 19, 20, 21, 22, 23]]"

definition gate_ino :: "state_ino \<Rightarrow> state_ino" where
  "gate_ino st = st\<lparr>poo := True\<rparr>"

text \<open>
  \<^verbatim>\<open>readsensor()\<close>: both \<^verbatim>\<open>constrain(...)\<close> statements drop their value, so the
  mapped values are stored as \<^verbatim>\<open>map()\<close> returns them.
\<close>

definition readsensor_ino :: "uint16_t \<Rightarrow> state_ino \<Rightarrow> state_ino" where
  "readsensor_ino reading st =
     (let mm0 = (if uint reading > 675 then 0 else uint reading)
      in st\<lparr>raw_mm_ino := map_long mm0 20 650 0 4095, mm_ino := map_long mm0 20 675 0 18\<rparr>)"

definition int_at :: "int list \<Rightarrow> int \<Rightarrow> error + int" where
  "int_at xs i =
     (if 0 \<le> i \<and> nat i < length xs then Inr (xs ! nat i)
      else Inl (SequenceIndexOutOfBounds i))"

definition int_store :: "int list \<Rightarrow> int \<Rightarrow> int \<Rightarrow> error + int list" where
  "int_store xs i v =
     (if 0 \<le> i \<and> nat i < length xs then Inr (xs[nat i := v])
      else Inl (SequenceIndexOutOfBounds i))"

definition scale_at :: "int \<Rightarrow> int \<Rightarrow> error + int" where
  "scale_at m i =
     (if 0 \<le> m \<and> nat m < length scale_ino \<and> 0 \<le> i \<and> nat i < length (scale_ino ! nat m)
      then Inr (scale_ino ! nat m ! nat i)
      else Inl (ScaleIndexOutOfBounds m i))"

definition playSeq_ino :: "(rat \<Rightarrow> rat) \<Rightarrow> state_ino \<Rightarrow> error + state_ino" where
  "playSeq_ino rnd st =
     (if NoteMode_ino st = 7 then
        (case int_at (sequence_ino st) (count_ino st) of
           Inl e \<Rightarrow> Inl e
         | Inr v \<Rightarrow> Inr (st\<lparr>dacUnit := v, PA4_ino := v\<rparr>))
      else
        (case int_at (sequence_ino st) (count_ino st) of
           Inl e \<Rightarrow> Inl e
         | Inr i \<Rightarrow>
             (case scale_at (NoteMode_ino st) i of
                Inl e \<Rightarrow> Inl e
              | Inr n \<Rightarrow>
                  (case volts_to_DAC rnd (midi_note_to_volts rnd (word_of_int n)) RESOLUTION_12_BIT
                          (rnd 0) (rnd (33 / 10)) of
                     Inl e \<Rightarrow> Inl e
                   | Inr d \<Rightarrow> Inr (st\<lparr>dacUnit := sint d, PA4_ino := sint d\<rparr>)))))"

definition recordSeq_ino :: "(rat \<Rightarrow> rat) \<Rightarrow> state_ino \<Rightarrow> error + state_ino" where
  "recordSeq_ino rnd st =
     (if NoteMode_ino st = 7 then
        (case int_store (sequence_ino st) (count_ino st) (raw_mm_ino st) of
           Inl e \<Rightarrow> Inl e
         | Inr s \<Rightarrow> playSeq_ino rnd (st\<lparr>sequence_ino := s\<rparr>))
      else
        (case int_store (sequence_ino st) (count_ino st) (mm_ino st) of
           Inl e \<Rightarrow> Inl e
         | Inr s \<Rightarrow> playSeq_ino rnd (st\<lparr>sequence_ino := s\<rparr>)))"

definition scaleMode_ino :: "int \<Rightarrow> state_ino \<Rightarrow> state_ino" where
  "scaleMode_ino scalemode st = st\<lparr>NoteMode_ino := map_long scalemode 0 1023 0 7\<rparr>"

text \<open>The \<^verbatim>\<open>switch\<close> has the cases 0 to 6 and no default.\<close>

definition loopLength_ino :: "int \<Rightarrow> state_ino \<Rightarrow> state_ino" where
  "loopLength_ino seqLength st =
     (let range' = map_long seqLength 0 1023 0 6
      in if range' = 0 then st\<lparr>countSize_ino := 1\<rparr>
         else if range' = 1 then st\<lparr>countSize_ino := 2\<rparr>
         else if range' = 2 then st\<lparr>countSize_ino := 3\<rparr>
         else if range' = 3 then st\<lparr>countSize_ino := 7\<rparr>
         else if range' = 4 then st\<lparr>countSize_ino := 15\<rparr>
         else if range' = 5 then st\<lparr>countSize_ino := 31\<rparr>
         else if range' = 6 then st\<lparr>countSize_ino := 63\<rparr>
         else st)"

definition knobs_ino :: "inputs \<Rightarrow> state_ino \<Rightarrow> state_ino" where
  "knobs_ino inp st =
     (let st1 = (case scaleKnob inp of Some v \<Rightarrow> scaleMode_ino v st | None \<Rightarrow> st)
      in case noteSeqPot inp of Some v \<Rightarrow> loopLength_ino v st1 | None \<Rightarrow> st1)"

definition loop_ino :: "(rat \<Rightarrow> rat) \<Rightarrow> inputs \<Rightarrow> state_ino \<Rightarrow> error + state_ino" where
  "loop_ino rnd inp st =
     (let st1 = knobs_ino inp st;
          st2 = (case lox inp of Some reading \<Rightarrow> readsensor_ino reading st1 | None \<Rightarrow> st1)
      in if poo st2 then
           (let st3 = st2\<lparr>poo := False, count_ino := count_ino st2 + 1\<rparr>;
                st4 = (if count_ino st3 > countSize_ino st3 then st3\<lparr>count_ino := 0\<rparr> else st3)
            in if PB5_LOW inp then
                 recordSeq_ino rnd
                   (if countFlag st4 = 1 then st4\<lparr>count_ino := 0, countFlag := 0\<rparr> else st4)
               else playSeq_ino rnd (st4\<lparr>countFlag := 1\<rparr>))
         else Inr st2)"

subsection \<open>Invariant of the sequencer state\<close>

text \<open>
  The arrays have their declared sizes, every stored note index and the note count are
  at most 35, and the mode is one of the eight the scale knob selects.
\<close>

definition seq_inv :: "state \<Rightarrow> bool" where
  "seq_inv st \<longleftrightarrow>
     length (sequence st) = 64 \<and> length (sequenceLinear st) = 64 \<and>
     length (fullScales st) = 7 \<and> (\<forall>row \<in> set (fullScales st). length row = 37) \<and>
     (\<forall>i \<in> set (sequence st). i \<le> 35) \<and> NumberOfNotes st \<le> 35 \<and>
     0 \<le> NoteMode st \<and> NoteMode st \<le> 7"

fun bounds_error :: "error \<Rightarrow> bool" where
  "bounds_error (PatternIndexOutOfBounds i) = True"
| "bounds_error (SequenceIndexOutOfBounds i) = True"
| "bounds_error (ScaleIndexOutOfBounds m i) = True"
| "bounds_error FloatNotFinite = False"
| "bounds_error (FloatToUintUndefined c) = False"

subsection \<open>The polling part of the main loop\<close>

text \<open>
  The state after the first statements of \<^verbatim>\<open>loop()\<close>: the knobs are read and,
  when a range is complete, the sensor is.
\<close>

definition polled :: "inputs \<Rightarrow> state \<Rightarrow> state" where
  "polled inp st =
     (case lox inp of
        Some reading \<Rightarrow> readsensor reading (ReadKnobs inp st)
      | None \<Rightarrow> ReadKnobs inp st)"

definition polled_ino :: "inputs \<Rightarrow> state_ino \<Rightarrow> state_ino" where
  "polled_ino inp st =
     (case lox inp of
        Some reading \<Rightarrow> readsensor_ino reading (knobs_ino inp st)
      | None \<Rightarrow> knobs_ino inp st)"

section \<open>Scale table generator\<close>

lemma generate_for_six_scales:
  "generate_for 0 6 (fullScales power_on) =
     Inr [[0, 2, 4, 5, 7, 9, 11, 12, 14, 16, 17, 19, 21, 23, 24, 26, 28, 29, 31, 33, 35,
           36, 38, 40, 41, 43, 45, 47, 36, 36, 36, 36, 36, 36, 36, 36, 36],
          [0, 2, 3, 5, 7, 8, 10, 12, 14, 15, 17, 19, 20, 22, 24, 26, 27, 29, 31, 32, 34,
           36, 38, 39, 41, 43, 44, 46, 36, 36, 36, 36, 36, 36, 36, 36, 36],
          [0, 3, 5, 7, 10, 12, 15, 17, 19, 22, 24, 27, 29, 31, 34, 36, 39, 41, 43, 46,
           36, 36, 36, 36, 36, 36, 36, 36, 36, 36, 36, 36, 36, 36, 36, 36, 36],
          [0, 2, 3, 5, 7, 8, 11, 12, 14, 15, 17, 19, 20, 23, 24, 26, 27, 29, 31, 32, 35,
           36, 38, 39, 41, 43, 44, 47, 36, 36, 36, 36, 36, 36, 36, 36, 36],
          [0, 1, 3, 4, 6, 7, 9, 10, 12, 13, 15, 16, 18, 19, 21, 22, 24, 25, 27, 28, 30,
           31, 33, 34, 36, 37, 39, 40, 42, 43, 45, 46, 36, 36, 36, 36, 36],
          [0, 2, 4, 6, 8, 10, 12, 14, 16, 18, 20, 22, 24, 26, 28, 30, 32, 34, 36, 38, 40,
           42, 44, 46, 36, 36, 36, 36, 36, 36, 36, 36, 36, 36, 36, 36, 36],
          replicate 37 0]"
  by code_simp

lemma patternLength_values: "map patternLength scalePatterns = [7, 7, 5, 7, 8, 6, 12]"
  by code_simp

text \<open>
  C2 at the rows the generator stores. Run over the six scales whose pattern row holds
  the sentinel (the passes of the loop before Chromatic), \<^verbatim>\<open>generateFullScales\<close>
  leaves rows of 37 entries that begin with the pattern. But the loop stops only when
  the octave counter reaches 4, so a fourth octave is written: the largest entry of
  each row is 46 or 47, not 36 or less, and no row is non-decreasing, since the fill
  value 36 follows the fourth octave (Major has 47 at index 27 and 36 at index 28). The
  entries at the highest index the sequencer records for each scale (\<open>NumberOfNotes\<close>)
  are 40, 39, 46, 39, 43 and 40.
\<close>

theorem generated_rows_exceed_three_octaves:
  "map_sum id (map length) (generate_for 0 6 (fullScales power_on)) = Inr (replicate 7 37) \<and>
   map_sum id (map2 (\<lambda>pat row. take (patternLength pat) row = take (patternLength pat) pat)
                 (take 6 scalePatterns))
     (generate_for 0 6 (fullScales power_on)) = Inr (replicate 6 True) \<and>
   map_sum id (map (Max \<circ> set) \<circ> take 6) (generate_for 0 6 (fullScales power_on)) =
     Inr [47, 46, 46, 47, 46, 46] \<and>
   map_sum id (map sorted \<circ> take 6) (generate_for 0 6 (fullScales power_on)) =
     Inr (replicate 6 False) \<and>
   map_sum id (\<lambda>fs. [fs ! 0 ! 23, fs ! 1 ! 23, fs ! 2 ! 19, fs ! 3 ! 23, fs ! 4 ! 29, fs ! 5 ! 20])
     (generate_for 0 6 (fullScales power_on)) = Inr [40, 39, 46, 39, 43, 40] \<and>
   map_sum id (\<lambda>fs. (fs ! 0 ! 27, fs ! 0 ! 28)) (generate_for 0 6 (fullScales power_on)) =
     Inr (47, 36)"
  by code_simp

text \<open>
  C8 at the Chromatic row. The row holds the twelve semitones and no sentinel, so after
  twelve notes the loop reads \<^verbatim>\<open>scalePatterns[6][12]\<close>, one past the end of the row
  and of the whole array; \<^verbatim>\<open>generateFullScales\<close> as a whole meets this read.
\<close>

theorem Chromatic_pattern_read_out_of_bounds:
  "255 \<notin> set (scalePatterns ! 6) \<and>
   generateScale (scalePatterns ! 6) (fullScales power_on ! 6) = Inl (PatternIndexOutOfBounds 12) \<and>
   generateFullScales power_on = Inl (PatternIndexOutOfBounds 12)"
  by code_simp

section \<open>Threshold tables\<close>

text \<open>
  The loop-length table takes every knob value, and its bands abut. So do the bands of
  the scale table, on every value but 18.
\<close>

lemma loopLength_bands:
  "countSize (loopLength v st) =
     (if v \<le> 9 then 1 else if v \<le> 45 then 2 else if v \<le> 120 then 3 else if v \<le> 210 then 7
      else if v \<le> 360 then 15 else if v \<le> 799 then 31 else 63)"
  by (simp add: loopLength_def)

lemma scaleMode_bands:
  "v \<noteq> 18 \<Longrightarrow> NoteMode (scaleMode v st) =
     (if v \<le> 17 then 0 else if v \<le> 53 then 1 else if v \<le> 105 then 2 else if v \<le> 180 then 3
      else if v \<le> 227 then 4 else if v \<le> 535 then 5 else if v \<le> 799 then 6 else 7)"
  by (simp add: scaleMode_def)

text \<open>
  C7 at the knob value 18. No branch of \<^verbatim>\<open>scaleMode\<close> takes 18: the first band is
  \<^verbatim>\<open>scalemode < 18\<close> and the second starts with \<^verbatim>\<open>scalemode > 18\<close>. The state is
  left as it was, while 17 selects mode 0 and 19 selects mode 1.
\<close>

theorem scaleMode_gap_at_18:
  "scaleMode 18 st = st \<and> NoteMode (scaleMode 17 st) = 0 \<and> NoteMode (scaleMode 19 st) = 1"
  by (simp add: scaleMode_def)

section \<open>What the knobs and the sensor leave unchanged\<close>

lemma scaleMode_frame [simp]:
  "clockInput (scaleMode k st) = clockInput st"
  "count (scaleMode k st) = count st"
  "countSize (scaleMode k st) = countSize st"
  "mm (scaleMode k st) = mm st"
  "sequence (scaleMode k st) = sequence st"
  "sequenceLinear (scaleMode k st) = sequenceLinear st"
  "fullScales (scaleMode k st) = fullScales st"
  by (simp_all add: scaleMode_def)

lemma loopLength_frame [simp]:
  "clockInput (loopLength k st) = clockInput st"
  "count (loopLength k st) = count st"
  "NoteMode (loopLength k st) = NoteMode st"
  "NumberOfNotes (loopLength k st) = NumberOfNotes st"
  "mm (loopLength k st) = mm st"
  "sequence (loopLength k st) = sequence st"
  "sequenceLinear (loopLength k st) = sequenceLinear st"
  "fullScales (loopLength k st) = fullScales st"
  by (simp_all add: loopLength_def)

lemma ReadKnobs_frame [simp]:
  "clockInput (ReadKnobs inp st) = clockInput st"
  "count (ReadKnobs inp st) = count st"
  "mm (ReadKnobs inp st) = mm st"
  "sequence (ReadKnobs inp st) = sequence st"
  "sequenceLinear (ReadKnobs inp st) = sequenceLinear st"
  "fullScales (ReadKnobs inp st) = fullScales st"
  by (simp_all add: ReadKnobs_def Let_def split: option.splits)

lemma readsensor_frame [simp]:
  "clockInput (readsensor r st) = clockInput st"
  "count (readsensor r st) = count st"
  "countSize (readsensor r st) = countSize st"
  "NoteMode (readsensor r st) = NoteMode st"
  "NumberOfNotes (readsensor r st) = NumberOfNotes st"
  "sequence (readsensor r st) = sequence st"
  "sequenceLinear (readsensor r st) = sequenceLinear st"
  "fullScales (readsensor r st) = fullScales st"
  "mm (readsensor r st) = uint r"
  by (simp_all add: readsensor_def)

section \<open>Sequencer cursor\<close>

text \<open>
  From a cursor inside the loop, \<^verbatim>\<open>incrementAndWrapCount\<close> steps to the next index
  and wraps to 0 after \<open>maxSize\<close>; whatever the cursor was, the result is at most
  \<open>maxSize\<close>.
\<close>

lemma incrementAndWrapCount_cycle:
  assumes "c \<le> maxSize"
  shows "incrementAndWrapCount c maxSize = (if c = maxSize then 0 else c + 1)"
proof (cases "c = maxSize")
  case True
  then show ?thesis
    using inc_less_eq_self_iff_eq [of maxSize]
    by (auto simp: incrementAndWrapCount_def not_less)
next
  case False
  with assms have "c < maxSize"
    by simp
  then have "c + 1 \<le> maxSize"
    by (rule inc_le)
  with False show ?thesis
    by (simp add: incrementAndWrapCount_def not_less leD)
qed

lemma incrementAndWrapCount_le: "incrementAndWrapCount c maxSize \<le> maxSize"
  by (simp add: incrementAndWrapCount_def not_less)

lemma playSeq_cursor_255:
  assumes "count st = 255" "length (sequence st) = 64" "length (sequenceLinear st) = 64"
  shows "playSeq rnd st = Inl (SequenceIndexOutOfBounds 255)"
  using assms by (simp add: playSeq_def sequence_at_def)

lemma recordSeq_cursor_255:
  assumes "count st = 255" "length (sequence st) = 64" "length (sequenceLinear st) = 64"
  shows "recordSeq rnd st = Inl (SequenceIndexOutOfBounds 255)"
  using assms by (simp add: recordSeq_def sequence_store_def Let_def)

lemma loop_cursor_255:
  assumes "clockInput st" "count st = 255"
    and "length (sequence st) = 64" "length (sequenceLinear st) = 64"
  shows "loop rnd inp st = Inl (SequenceIndexOutOfBounds 255)"
  using assms
  by (simp add: loop_def Let_def playSeq_cursor_255 recordSeq_cursor_255 split: option.splits)

text \<open>
  C1 at the first clock edge. The cursor starts as \<^verbatim>\<open>uint8_t count = -1\<close>, that is
  255, and \<^verbatim>\<open>loop()\<close> plays or records at \<^verbatim>\<open>sequence[count]\<close> before it
  increments. So whatever the knobs, the sensor and the button read, and whatever the
  scale tables hold, the first clock edge after start-up indexes the 64-entry arrays at
  255.
\<close>

theorem first_clock_edge_indexes_step_255:
  "loop rnd inp (gate (scaleMode scalemode (loopLength seqLength (power_on\<lparr>fullScales := fs\<rparr>))))
     = Inl (SequenceIndexOutOfBounds 255)"
  by (rule loop_cursor_255) (simp_all add: gate_def power_on_def)

section \<open>Linear mode\<close>

lemma low_byte_4095: "(4095 :: uint8_t) = 255"
  by code_simp

text \<open>
  C3 at a reading of 700 mm in linear mode (knob at 900), cursor 0. The mapped value
  \<open>raw_mm\<close> is 4095, but \<^verbatim>\<open>uint8_t sequenceLinear[64]\<close> keeps its low byte: 255 is
  stored and 255 is written to the output, at the recording and at a later playback of
  the step.
\<close>

theorem linear_record_keeps_low_byte:
  "recordSeq rnd (reset (scaleMode 900 (readsensor 700 power_on))) =
     Inr ((reset (scaleMode 900 (readsensor 700 power_on)))
            \<lparr>raw_mm := 4095, sequenceLinear := (replicate 64 0)[0 := 255], PA4 := 255\<rparr>) \<and>
   playSeq rnd ((reset (scaleMode 900 (readsensor 700 power_on)))
            \<lparr>raw_mm := 4095, sequenceLinear := (replicate 64 0)[0 := 255], PA4 := 255\<rparr>) =
     Inr ((reset (scaleMode 900 (readsensor 700 power_on)))
            \<lparr>raw_mm := 4095, sequenceLinear := (replicate 64 0)[0 := 255], PA4 := 255\<rparr>)"
  by (simp add: recordSeq_def playSeq_def reset_def scaleMode_def readsensor_def power_on_def
      TopRange_def map_long_def constrain_def sequence_store_def sequence_at_def Let_def
      low_byte_4095)

section \<open>Interrupt handlers\<close>

text \<open>
  C10, as the code has it. The clock-edge handler \<^verbatim>\<open>gate()\<close> sets its flag
  \<open>clockInput\<close> and changes nothing else. The reset-edge handler \<^verbatim>\<open>reset()\<close> has
  no flag: it writes the cursor, \<^verbatim>\<open>count = 0\<close>, and changes nothing else. Neither
  handler writes the sequence storage, and neither looks up a table.
\<close>

theorem handlers_frame:
  "(gate st)\<lparr>clockInput := clockInput st\<rparr> = st \<and> clockInput (gate st) \<and>
   (reset st)\<lparr>count := count st\<rparr> = st \<and> count (reset st) = 0 \<and>
   sequence (gate st) = sequence st \<and> sequenceLinear (gate st) = sequenceLinear st \<and>
   sequence (reset st) = sequence st \<and> sequenceLinear (reset st) = sequenceLinear st"
  by (simp add: gate_def reset_def)

text \<open>
  At start-up the cursor is 255; the reset handler alone makes it 0, and sets no flag.
\<close>

theorem reset_writes_cursor_counterexample:
  "count power_on = 255 \<and> count (reset power_on) = 0 \<and> clockInput (reset power_on) = False"
  by (simp add: reset_def power_on_def)

section \<open>Evaluating a run\<close>

lemma replicate_update_same: "(replicate n x)[i := x] = replicate n x"
  by (cases "i < n") (simp_all add: list_update_same_conv list_update_beyond)

lemma ceiling_numeral_quotient:
  "\<lceil>(numeral a :: rat) / numeral b\<rceil> = - ((- numeral a) div numeral b)"
proof -
  have "\<lceil>(numeral a :: rat) / numeral b\<rceil> =
      - \<lfloor>of_int (- numeral a) / (of_int (numeral b) :: rat)\<rfloor>"
    by (simp add: ceiling_def)
  then show ?thesis
    by (simp only: floor_divide_of_int_eq)
qed

lemmas run_defs = recordSeq_def playSeq_def reset_def gate_def scaleMode_def loopLength_def
  readsensor_def power_on_def TopRange_def map_long_def constrain_def sequence_store_def
  sequence_at_def fullScales_at_def volts_to_DAC_def midi_note_to_volts_def
  volts_per_semitone_def semitones_per_octave_def fix_cal_def RESOLUTION_12_BIT_def Let_def
  overflows_def FLT_MAX_def replicate_update_same ceiling_numeral_quotient

lemmas run_ino_defs = loop_ino_def knobs_ino_def recordSeq_ino_def playSeq_ino_def gate_ino_def
  readsensor_ino_def power_on_ino_def map_long_def int_at_def int_store_def scale_at_def
  scale_ino_def volts_to_DAC_def midi_note_to_volts_def volts_per_semitone_def
  semitones_per_octave_def RESOLUTION_12_BIT_def Let_def overflows_def FLT_MAX_def
  replicate_update_same ceiling_numeral_quotient

section \<open>CV codec\<close>

text \<open>
  For a voltage inside the range, \<open>min_volt \<le> volts \<le> max_volt\<close>, with a range that is
  finite and not zero, the code is defined and at most \<open>resolution - 1\<close>, for every
  rounding that is monotone and leaves 0, 1 and \<open>resolution - 1\<close> unchanged. Nothing
  clamps a voltage outside the range.
\<close>

lemma volts_to_DAC_in_range:
  assumes mono: "mono rnd" and r0: "rnd 0 = 0" and r1: "rnd 1 = 1"
    and rres: "rnd (of_nat (unat (resolution - 1))) = of_nat (unat (resolution - 1))"
    and lo: "min_volt \<le> volts" and hi: "volts \<le> max_volt"
    and span: "rnd (max_volt - min_volt) \<noteq> 0" "\<not> overflows (rnd (max_volt - min_volt))"
  shows "\<exists>dacUnit. volts_to_DAC rnd volts resolution min_volt max_volt = Inr dacUnit \<and>
           dacUnit \<le> resolution - 1"
proof -
  define volt_range where "volt_range = rnd (max_volt - min_volt)"
  define a where "a = rnd (volts - min_volt)"
  define normalized_value where "normalized_value = rnd (a / volt_range)"
  define top :: rat where "top = of_nat (unat (resolution - 1))"
  define p where "p = rnd (normalized_value * rnd top)"
  define c where "c = \<lceil>p\<rceil>"
  have a0: "0 \<le> a"
    using monoD [OF mono, of 0 "volts - min_volt"] lo by (simp add: a_def r0)
  have ar: "a \<le> volt_range"
    using monoD [OF mono, of "volts - min_volt" "max_volt - min_volt"] hi
    by (simp add: a_def volt_range_def)
  have pos: "0 < volt_range"
    using a0 ar span(1) by (simp add: volt_range_def)
  have fin_range: "\<not> overflows volt_range"
    using span(2) by (simp add: volt_range_def)
  then have fin_a: "\<not> overflows a"
    using a0 ar pos by (simp add: overflows_def)
  have "0 \<le> a / volt_range" "a / volt_range \<le> 1"
    using a0 ar pos by simp_all
  then have n0: "0 \<le> normalized_value" and n1: "normalized_value \<le> 1"
    using monoD [OF mono, of 0 "a / volt_range"] monoD [OF mono, of "a / volt_range" 1]
    by (simp_all add: normalized_value_def r0 r1)
  then have fin_n: "\<not> overflows normalized_value"
    by (simp add: overflows_def FLT_MAX_def)
  have top0: "0 \<le> top"
    unfolding top_def by (rule of_nat_0_le_iff)
  have rtop: "rnd top = top"
    unfolding top_def by (rule rres)
  have "0 \<le> normalized_value * top" "normalized_value * top \<le> top"
    using n0 n1 top0 by (simp_all add: mult_left_le_one_le)
  then have p0: "0 \<le> p" and p1: "p \<le> top"
    using monoD [OF mono, of 0 "normalized_value * top"]
      monoD [OF mono, of "normalized_value * top" top]
    by (simp_all add: p_def rtop r0)
  have c0: "0 \<le> c"
    using p0 by (simp add: c_def)
  have topi: "top = of_int (uint (resolution - 1))"
    unfolding top_def by simp
  with p1 have c1: "c \<le> uint (resolution - 1)"
    unfolding c_def by (simp only: ceiling_le_iff)
  have small: "uint (resolution - 1) < 2 ^ 32"
    using uint_bounded [of "resolution - 1"] by simp
  with c1 have c2: "c < 2 ^ 32"
    by linarith
  from small have "uint (resolution - 1) \<le> 2 ^ 32"
    by simp
  then have "(of_int (uint (resolution - 1)) :: rat) \<le> of_int (2 ^ 32)"
    by (simp only: of_int_le_iff)
  then have "top \<le> 2 ^ 32"
    unfolding topi by simp
  with p0 p1 have fin_p: "\<not> overflows p"
    by (simp add: overflows_def FLT_MAX_def)
  have eq: "volts_to_DAC rnd volts resolution min_volt max_volt = Inr (word_of_int c)"
    using pos fin_range fin_a fin_n fin_p c0 c2
    unfolding volts_to_DAC_def Let_def volt_range_def [symmetric] a_def [symmetric]
      top_def [symmetric]
    by (simp add: normalized_value_def [symmetric] p_def [symmetric] c_def [symmetric])
  have "uint (word_of_int c :: uint32_t) = c"
    using c0 c2 by (simp add: uint_word_of_int_eq take_bit_int_eq_self)
  then have "(word_of_int c :: uint32_t) \<le> resolution - 1"
    using c1 by (simp add: word_le_def)
  with eq show ?thesis
    by blast
qed

text \<open>
  Bounds through one rounding, one product and one quotient. The rounding is only
  assumed to have a relative error of at most \<open>1 / 2 ^ 23\<close> between 1/16 and 8192.
\<close>

lemma rnd_between:
  fixes rnd :: "rat \<Rightarrow> rat"
  assumes H: "\<forall>x. 1 / 16 \<le> x \<and> x \<le> 8192 \<longrightarrow> \<bar>rnd x - x\<bar> \<le> x / 2 ^ 23"
    and x: "lo \<le> x \<and> x \<le> hi" and range: "1 / 16 \<le> lo" "hi \<le> 8192"
    and lo': "lo' \<le> lo * (1 - 1 / 2 ^ 23)" and hi': "hi * (1 + 1 / 2 ^ 23) \<le> hi'"
  shows "lo' \<le> rnd x \<and> rnd x \<le> hi'"
proof -
  have "1 / 16 \<le> x" "x \<le> 8192"
    using x range by linarith+
  with H have err: "\<bar>rnd x - x\<bar> \<le> x / 2 ^ 23"
    by blast
  have "lo * (1 - 1 / 2 ^ 23) \<le> x * (1 - 1 / 2 ^ 23)"
    using x by (intro mult_right_mono) simp_all
  moreover have "x * (1 + 1 / 2 ^ 23) \<le> hi * (1 + 1 / 2 ^ 23)"
    using x by (intro mult_right_mono) simp_all
  moreover from err have "rnd x - x \<le> x / 2 ^ 23 \<and> - (rnd x - x) \<le> x / 2 ^ 23"
    by (simp only: abs_le_iff)
  then have "x * (1 - 1 / 2 ^ 23) \<le> rnd x" "rnd x \<le> x * (1 + 1 / 2 ^ 23)"
    by (simp_all add: algebra_simps)
  ultimately show ?thesis
    using lo' hi' by linarith
qed

lemma mult_between:
  fixes x y :: rat
  assumes "a1 \<le> x \<and> x \<le> b1" "a2 \<le> y \<and> y \<le> b2" "0 \<le> a1" "0 \<le> a2"
  shows "a1 * a2 \<le> x * y \<and> x * y \<le> b1 * b2"
  using assms by (auto intro!: mult_mono)

lemma divide_between:
  fixes x y :: rat
  assumes "a1 \<le> x \<and> x \<le> b1" "a2 \<le> y \<and> y \<le> b2" "0 \<le> a1" "0 < a2"
  shows "a1 / b2 \<le> x / y \<and> x / y \<le> b1 / a2"
  using assms by (auto intro!: frac_le)

lemma not_overflows: "0 \<le> x \<Longrightarrow> x \<le> 8192 \<Longrightarrow> \<not> overflows x"
  by (simp add: overflows_def FLT_MAX_def)

lemma note_40_code:
  fixes rnd :: "rat \<Rightarrow> rat"
  assumes H: "\<forall>x. 1 / 16 \<le> x \<and> x \<le> 8192 \<longrightarrow> \<bar>rnd x - x\<bar> \<le> x / 2 ^ 23"
    and Z: "rnd 0 = 0"
  shows "volts_to_DAC rnd (midi_note_to_volts rnd 40) RESOLUTION_12_BIT (rnd 0)
           (rnd (rnd (33 / 10) + fix_cal rnd)) = Inr 4137"
proof -
  note R = rnd_between [OF H]
  define V where "V = midi_note_to_volts rnd 40"
  define M where "M = rnd (rnd (33 / 10) + fix_cal rnd)"
  define vr where "vr = rnd (M - rnd 0)"
  define d where "d = rnd (V - rnd 0)"
  define Q where "Q = rnd (d / vr)"
  define top where "top = rnd (of_nat (unat (RESOLUTION_12_BIT - 1)))"
  define P where "P = rnd (Q * top)"
  have one: "999999 / 1000000 \<le> rnd 1 \<and> rnd 1 \<le> 1000001 / 1000000"
    by (rule R [where lo = 1 and hi = 1]) simp_all
  have twelve: "1199999 / 100000 \<le> rnd 12 \<and> rnd 12 \<le> 1200001 / 100000"
    by (rule R [where lo = 12 and hi = 12]) simp_all
  have "83333 / 1000000 \<le> rnd (rnd 1 / rnd 12) \<and> rnd (rnd 1 / rnd 12) \<le> 833336 / 10000000"
    by (rule R [OF divide_between [OF one twelve]]) simp_all
  then have vps: "83333 / 1000000 \<le> volts_per_semitone rnd \<and>
      volts_per_semitone rnd \<le> 833336 / 10000000"
    by (simp add: volts_per_semitone_def semitones_per_octave_def)
  have n: "399999 / 10000 \<le> rnd 40 \<and> rnd 40 \<le> 400001 / 10000"
    by (rule R [where lo = 40 and hi = 40]) simp_all
  have "33333 / 10000 \<le> rnd (rnd 40 * volts_per_semitone rnd) \<and>
      rnd (rnd 40 * volts_per_semitone rnd) \<le> 333336 / 100000"
    by (rule R [OF mult_between [OF n vps]]) simp_all
  then have V: "33333 / 10000 \<le> V \<and> V \<le> 333336 / 100000"
    by (simp add: V_def midi_note_to_volts_def)
  have c: "3299999 / 1000000 \<le> rnd (33 / 10) \<and> rnd (33 / 10) \<le> 3300001 / 1000000"
    by (rule R [where lo = "33 / 10" and hi = "33 / 10"]) simp_all
  have "329999 / 100000 \<le> rnd (rnd (33 / 10)) \<and> rnd (rnd (33 / 10)) \<le> 330001 / 100000"
    by (rule R [OF c]) simp_all
  then have M: "329999 / 100000 \<le> M \<and> M \<le> 330001 / 100000"
    by (simp add: M_def fix_cal_def Z)
  have "329998 / 100000 \<le> rnd M \<and> rnd M \<le> 330002 / 100000"
    by (rule R [OF M]) simp_all
  then have vr: "329998 / 100000 \<le> vr \<and> vr \<le> 330002 / 100000"
    by (simp add: vr_def Z)
  have "333329 / 100000 \<le> rnd V \<and> rnd V \<le> 333337 / 100000"
    by (rule R [OF V]) simp_all
  then have d: "333329 / 100000 \<le> d \<and> d \<le> 333337 / 100000"
    by (simp add: d_def Z)
  have Q: "101008 / 100000 \<le> Q \<and> Q \<le> 101012 / 100000"
    unfolding Q_def by (rule R [OF divide_between [OF d vr]]) simp_all
  have "409499 / 100 \<le> rnd 4095 \<and> rnd 4095 \<le> 409501 / 100"
    by (rule R [where lo = 4095 and hi = 4095]) simp_all
  then have top: "409499 / 100 \<le> top \<and> top \<le> 409501 / 100"
    by (simp add: top_def RESOLUTION_12_BIT_def)
  have P: "41362 / 10 \<le> P \<and> P \<le> 41365 / 10"
    unfolding P_def by (rule R [OF mult_between [OF Q top]]) simp_all
  then have ceil: "\<lceil>P\<rceil> = 4137"
    by (simp add: ceiling_eq_iff)
  have finite: "\<not> overflows d" "\<not> overflows vr" "\<not> overflows Q" "\<not> overflows P"
    by (rule not_overflows; use d vr Q P in linarith)+
  have nonzero: "vr \<noteq> 0"
    using vr by linarith
  have "volts_to_DAC rnd V RESOLUTION_12_BIT (rnd 0) M = Inr 4137"
    using finite nonzero ceil
    unfolding volts_to_DAC_def Let_def vr_def [symmetric] d_def [symmetric]
      Q_def [symmetric] top_def [symmetric]
    by (simp add: P_def [symmetric])
  then show ?thesis
    by (simp add: V_def M_def)
qed

text \<open>
  C6 at the top of the Major scale. With the hand at 700 mm in Major the note index 23
  is recorded, and its table entry is the semitone 40. For that note \<^verbatim>\<open>playSeq\<close>
  calls \<^verbatim>\<open>volts_to_DAC\<close> with 40 semitones at a volt per octave, 3.33 V, over the
  range from 0 to 3.3 V, and the code returned and written to the 12-bit output is
  4137: above 4095, unclamped. This holds for every rounding \<open>rnd\<close> with \<open>rnd 0 = 0\<close>
  whose relative error is at most \<open>1 / 2 ^ 23\<close> between 1/16 and 8192, as that of IEEE single
  precision is.
\<close>

theorem top_of_Major_exceeds_12_bits:
  fixes rnd :: "rat \<Rightarrow> rat"
  assumes H: "\<forall>x. 1 / 16 \<le> x \<and> x \<le> 8192 \<longrightarrow> \<bar>rnd x - x\<bar> \<le> x / 2 ^ 23"
    and Z: "rnd 0 = 0"
  shows "volts_to_DAC rnd (midi_note_to_volts rnd 40) RESOLUTION_12_BIT (rnd 0)
           (rnd (rnd (33 / 10) + fix_cal rnd)) = Inr 4137 \<and>
         (\<forall>st i. NoteMode st \<noteq> 7 \<and> sequence_at (sequence st) (count st) = Inr i \<and>
                 fullScales_at (fullScales st) (NoteMode st) i = Inr 40 \<longrightarrow>
                 playSeq rnd st = Inr (st\<lparr>dacU := 4137, PA4 := 4137\<rparr>))"
proof -
  have code: "volts_to_DAC rnd (midi_note_to_volts rnd 40) RESOLUTION_12_BIT (rnd 0)
           (rnd (rnd (33 / 10) + fix_cal rnd)) = Inr 4137"
    using H Z by (rule note_40_code)
  have "playSeq rnd st = Inr (st\<lparr>dacU := 4137, PA4 := 4137\<rparr>)"
    if "NoteMode st \<noteq> 7" "sequence_at (sequence st) (count st) = Inr i"
      "fullScales_at (fullScales st) (NoteMode st) i = Inr 40" for st i
    using that code by (simp add: playSeq_def)
  with code show ?thesis
    by blast
qed

text \<open>
  With exact arithmetic for \<open>rnd\<close>, on the table the generator leaves for Major:
  recording at 700 mm stores the index 23 and writes the code 4137.
\<close>

theorem top_of_Major_exceeds_12_bits_witness:
  "id (0 :: rat) = 0 \<and>
   volts_to_DAC id (midi_note_to_volts id 40) RESOLUTION_12_BIT (id 0)
     (id (id (33 / 10) + fix_cal id)) = Inr 4137 \<and>
   recordSeq id
     (reset (scaleMode 10 (readsensor 700
        (power_on\<lparr>fullScales := projr (generate_for 0 6 (fullScales power_on))\<rparr>)))) =
     Inr ((reset (scaleMode 10 (readsensor 700
        (power_on\<lparr>fullScales := projr (generate_for 0 6 (fullScales power_on))\<rparr>))))
          \<lparr>mm := 23, dacU := 4137, sequence := (replicate 64 0)[0 := 23], PA4 := 4137\<rparr>)"
proof -
  have H: "\<forall>x :: rat. 1 / 16 \<le> x \<and> x \<le> 8192 \<longrightarrow> \<bar>id x - x\<bar> \<le> x / 2 ^ 23"
    by simp
  have Z: "id (0 :: rat) = 0"
    by simp
  have run: "recordSeq id
     (reset (scaleMode 10 (readsensor 700
        (power_on\<lparr>fullScales := projr (generate_for 0 6 (fullScales power_on))\<rparr>)))) =
     Inr ((reset (scaleMode 10 (readsensor 700
        (power_on\<lparr>fullScales := projr (generate_for 0 6 (fullScales power_on))\<rparr>))))
          \<lparr>mm := 23, dacU := 4137, sequence := (replicate 64 0)[0 := 23], PA4 := 4137\<rparr>)"
    unfolding generate_for_six_scales sum.sel by (simp add: run_defs)
  from top_of_Major_exceeds_12_bits [OF H Z] Z run show ?thesis
    by blast
qed

section \<open>What playing a step changes\<close>

lemma playSeq_Inr:
  assumes "playSeq rnd st = Inr st'"
  shows "(\<exists>d. st' = st\<lparr>dacU := d, PA4 := d\<rparr>) \<or> (\<exists>v. st' = st\<lparr>PA4 := v\<rparr>)"
proof (cases "NoteMode st \<noteq> 7")
  case True
  with assms show ?thesis
    unfolding playSeq_def by (simp split: sum.splits) blast
next
  case False
  with assms show ?thesis
    unfolding playSeq_def by (simp split: sum.splits) blast
qed

lemma playSeq_frame:
  assumes "playSeq rnd st = Inr st'"
  shows "sequence st' = sequence st" "sequenceLinear st' = sequenceLinear st" "mm st' = mm st"
    "count st' = count st" "countSize st' = countSize st" "NoteMode st' = NoteMode st"
    "NumberOfNotes st' = NumberOfNotes st" "fullScales st' = fullScales st"
    "clockInput st' = clockInput st"
  using playSeq_Inr [OF assms] by auto

section \<open>The record button\<close>

lemma knobs_ino_frame [simp]:
  "poo (knobs_ino inp st) = poo st"
  "count_ino (knobs_ino inp st) = count_ino st"
  "countFlag (knobs_ino inp st) = countFlag st"
  "sequence_ino (knobs_ino inp st) = sequence_ino st"
  by (simp_all add: knobs_ino_def scaleMode_ino_def loopLength_ino_def Let_def
      split: option.splits)

lemma polled_ino_frame [simp]:
  "poo (polled_ino inp st) = poo st"
  "count_ino (polled_ino inp st) = count_ino st"
  "countFlag (polled_ino inp st) = countFlag st"
  "sequence_ino (polled_ino inp st) = sequence_ino st"
  by (simp_all add: polled_ino_def readsensor_ino_def Let_def split: option.splits)

lemma playSeq_ino_Inr:
  assumes "playSeq_ino rnd st = Inr st'"
  shows "\<exists>v. st' = st\<lparr>dacUnit := v, PA4_ino := v\<rparr>"
proof (cases "NoteMode_ino st = 7")
  case True
  with assms show ?thesis
    unfolding playSeq_ino_def by (simp split: sum.splits) blast
next
  case False
  with assms show ?thesis
    unfolding playSeq_ino_def by (simp split: sum.splits) blast
qed

lemma playSeq_ino_frame:
  assumes "playSeq_ino rnd st = Inr st'"
  shows "count_ino st' = count_ino st" "countFlag st' = countFlag st"
    "sequence_ino st' = sequence_ino st" "poo st' = poo st"
  using playSeq_ino_Inr [OF assms] by auto

lemma recordSeq_ino_frame:
  assumes "recordSeq_ino rnd st = Inr st'"
  shows "count_ino st' = count_ino st" "countFlag st' = countFlag st"
    "sequence_ino st' =
       (sequence_ino st)[nat (count_ino st) :=
          (if NoteMode_ino st = 7 then raw_mm_ino st else mm_ino st)]"
proof -
  obtain s where s: "int_store (sequence_ino st) (count_ino st)
        (if NoteMode_ino st = 7 then raw_mm_ino st else mm_ino st) = Inr s"
    and play: "playSeq_ino rnd (st\<lparr>sequence_ino := s\<rparr>) = Inr st'"
    using assms unfolding recordSeq_ino_def by (auto split: if_splits sum.splits)
  from s have "s = (sequence_ino st)[nat (count_ino st) :=
      (if NoteMode_ino st = 7 then raw_mm_ino st else mm_ino st)]"
    by (simp add: int_store_def split: if_splits)
  with playSeq_ino_frame [OF play]
  show "count_ino st' = count_ino st" "countFlag st' = countFlag st"
    "sequence_ino st' =
       (sequence_ino st)[nat (count_ino st) :=
          (if NoteMode_ino st = 7 then raw_mm_ino st else mm_ino st)]"
    by simp_all
qed

lemma loop_ino_clock:
  assumes "poo st"
  shows "loop_ino rnd inp st =
     (if PB5_LOW inp then
        recordSeq_ino rnd
          (if countFlag st = 1
           then (polled_ino inp st)\<lparr>poo := False, count_ino := 0, countFlag := 0\<rparr>
           else (polled_ino inp st)\<lparr>poo := False,
                  count_ino := (if count_ino st + 1 > countSize_ino (polled_ino inp st) then 0
                                else count_ino st + 1)\<rparr>)
      else
        playSeq_ino rnd
          ((polled_ino inp st)\<lparr>poo := False,
              count_ino := (if count_ino st + 1 > countSize_ino (polled_ino inp st) then 0
                            else count_ino st + 1),
              countFlag := 1\<rparr>))"
proof -
  have "poo (polled_ino inp st)"
    using assms by simp
  then show ?thesis
    unfolding loop_ino_def Let_def polled_ino_def [symmetric] by simp
qed

text \<open>
  C4, as the code has it. In \<^verbatim>\<open>mudras.ino\<close>, a clock edge handled with the button
  released sets \<open>countFlag\<close>; the next clock edge that finds the button pressed records
  with the cursor forced to 0: the step is stored at index 0 and the cursor is 0
  afterwards. (The revision with the reset input has no \<open>countFlag\<close>; there the record
  button never moves the cursor.)
\<close>

theorem play_to_record_resets_cursor_ino:
  assumes play: "loop_ino rnd inp1 (gate_ino st0) = Inr st1" and released: "\<not> PB5_LOW inp1"
    and pressed: "PB5_LOW inp2"
  shows "countFlag st1 = 1 \<and>
     loop_ino rnd inp2 (gate_ino st1) =
       recordSeq_ino rnd
         ((polled_ino inp2 (gate_ino st1))\<lparr>poo := False, count_ino := 0, countFlag := 0\<rparr>) \<and>
     (\<forall>st2. loop_ino rnd inp2 (gate_ino st1) = Inr st2 \<longrightarrow>
        count_ino st2 = 0 \<and> countFlag st2 = 0 \<and>
        sequence_ino st2 =
          (sequence_ino st1)[0 := (if NoteMode_ino (polled_ino inp2 st1) = 7
                                   then raw_mm_ino (polled_ino inp2 st1)
                                   else mm_ino (polled_ino inp2 st1))])"
proof -
  have flag: "countFlag st1 = 1"
    using play released playSeq_ino_frame(2) [of rnd _ st1]
    by (simp add: loop_ino_clock gate_ino_def)
  then have edge: "loop_ino rnd inp2 (gate_ino st1) =
       recordSeq_ino rnd
         ((polled_ino inp2 (gate_ino st1))\<lparr>poo := False, count_ino := 0, countFlag := 0\<rparr>)"
    using pressed by (simp add: loop_ino_clock gate_ino_def)
  have modes: "NoteMode_ino (polled_ino inp2 (gate_ino st1)) = NoteMode_ino (polled_ino inp2 st1)"
    "raw_mm_ino (polled_ino inp2 (gate_ino st1)) = raw_mm_ino (polled_ino inp2 st1)"
    "mm_ino (polled_ino inp2 (gate_ino st1)) = mm_ino (polled_ino inp2 st1)"
    by (simp_all add: polled_ino_def knobs_ino_def scaleMode_ino_def loopLength_ino_def
        readsensor_ino_def gate_ino_def Let_def split: option.splits)
  have after: "count_ino st2 = 0 \<and> countFlag st2 = 0 \<and>
        sequence_ino st2 =
          (sequence_ino st1)[0 := (if NoteMode_ino (polled_ino inp2 st1) = 7
                                   then raw_mm_ino (polled_ino inp2 st1)
                                   else mm_ino (polled_ino inp2 st1))]"
    if "loop_ino rnd inp2 (gate_ino st1) = Inr st2" for st2
    using recordSeq_ino_frame [OF that [unfolded edge]] modes
    by (simp add: gate_ino_def)
  from flag edge after show ?thesis
    by blast
qed

text \<open>
  From cursor 0, a play edge moves the cursor to 1; the record edge that follows, with a
  reading of 300 mm, stores the note index 7 at step 0 and leaves the cursor at 0.
\<close>

theorem play_to_record_resets_cursor_ino_witness:
  "loop_ino id \<lparr>scaleKnob = None, noteSeqPot = None, lox = None, PB5_LOW = False\<rparr>
       (gate_ino (power_on_ino\<lparr>count_ino := 0\<rparr>)) =
     Inr (power_on_ino\<lparr>count_ino := 1, countFlag := 1\<rparr>) \<and>
   \<not> PB5_LOW \<lparr>scaleKnob = None, noteSeqPot = None, lox = None, PB5_LOW = False\<rparr> \<and>
   PB5_LOW \<lparr>scaleKnob = None, noteSeqPot = None, lox = Some 300, PB5_LOW = True\<rparr> \<and>
   loop_ino id \<lparr>scaleKnob = None, noteSeqPot = None, lox = Some 300, PB5_LOW = True\<rparr>
       (gate_ino (power_on_ino\<lparr>count_ino := 1, countFlag := 1\<rparr>)) =
     Inr (power_on_ino\<lparr>count_ino := 0, countFlag := 0, mm_ino := 7, raw_mm_ino := 1820,
            dacUnit := 1241, sequence_ino := (replicate 64 0)[0 := 7], PA4_ino := 1241\<rparr>) \<and>
   countFlag (power_on_ino\<lparr>count_ino := 1, countFlag := 1\<rparr>) = 1"
proof -
  have play: "loop_ino id \<lparr>scaleKnob = None, noteSeqPot = None, lox = None, PB5_LOW = False\<rparr>
       (gate_ino (power_on_ino\<lparr>count_ino := 0\<rparr>)) =
     Inr (power_on_ino\<lparr>count_ino := 1, countFlag := 1\<rparr>)"
    by (simp add: run_ino_defs)
  have rec: "loop_ino id \<lparr>scaleKnob = None, noteSeqPot = None, lox = Some 300, PB5_LOW = True\<rparr>
       (gate_ino (power_on_ino\<lparr>count_ino := 1, countFlag := 1\<rparr>)) =
     Inr (power_on_ino\<lparr>count_ino := 0, countFlag := 0, mm_ino := 7, raw_mm_ino := 1820,
            dacUnit := 1241, sequence_ino := (replicate 64 0)[0 := 7], PA4_ino := 1241\<rparr>)"
    by (simp add: run_ino_defs)
  have "\<not> PB5_LOW \<lparr>scaleKnob = None, noteSeqPot = None, lox = None, PB5_LOW = False\<rparr>"
    and "PB5_LOW \<lparr>scaleKnob = None, noteSeqPot = None, lox = Some 300, PB5_LOW = True\<rparr>"
    by simp_all
  from play_to_record_resets_cursor_ino [OF play this] play rec show ?thesis
    by simp
qed

text \<open>
  In the revision with the reset input: after a play edge at cursor 0 the cursor is 1,
  and the record edge that follows stores its note at step 1 and moves on to 2.
\<close>

theorem record_edge_keeps_cursor_counterexample:
  "loop id \<lparr>scaleKnob = None, noteSeqPot = None, lox = None, PB5_LOW = False\<rparr>
       (gate (reset (scaleMode 10 power_on))) =
     Inr ((reset (scaleMode 10 power_on))\<lparr>count := 1\<rparr>) \<and>
   loop id \<lparr>scaleKnob = None, noteSeqPot = None, lox = Some 700, PB5_LOW = True\<rparr>
       (gate ((reset (scaleMode 10 power_on))\<lparr>count := 1\<rparr>)) =
     Inr ((reset (scaleMode 10 power_on))
            \<lparr>count := 2, mm := 23, sequence := (replicate 64 0)[1 := 23]\<rparr>)"
  by (simp add: loop_def ReadKnobs_def incrementAndWrapCount_def run_defs)

section \<open>Readings above the ceiling\<close>








section \<open>Table lookups stay in bounds\<close>

lemma seq_inv_power_on: "seq_inv power_on"
  by (simp add: seq_inv_def power_on_def)

lemma note_counts_le_35:
  "(23 :: uint8_t) \<le> 35" "(19 :: uint8_t) \<le> 35" "(29 :: uint8_t) \<le> 35"
  "(20 :: uint8_t) \<le> 35"
  by (simp_all add: word_le_nat_alt)

lemma seq_inv_scaleMode: "seq_inv st \<Longrightarrow> seq_inv (scaleMode k st)"
  by (simp add: seq_inv_def scaleMode_def note_counts_le_35)

lemma seq_inv_frame:
  assumes "seq_inv st"
  shows "seq_inv (loopLength k st)" "seq_inv (readsensor r st)" "seq_inv (gate st)"
    "seq_inv (reset st)"
  using assms by (simp_all add: seq_inv_def loopLength_def readsensor_def gate_def reset_def)

lemma seq_inv_playSeq:
  assumes "seq_inv st" "playSeq rnd st = Inr st'"
  shows "seq_inv st'"
  using assms(1) playSeq_frame [OF assms(2)] by (simp add: seq_inv_def)

lemma volts_to_DAC_error:
  "volts_to_DAC rnd volts resolution min_volt max_volt = Inl e \<Longrightarrow> \<not> bounds_error e"
  by (auto simp: volts_to_DAC_def Let_def split: if_splits)

lemma scale_lookup:
  assumes inv: "seq_inv st" and cursor: "unat (count st) < 64" and scale: "NoteMode st \<noteq> 7"
  shows "\<exists>i n. sequence_at (sequence st) (count st) = Inr i \<and> unat i < 37 \<and>
           fullScales_at (fullScales st) (NoteMode st) i = Inr n"
proof -
  define i where "i = sequence st ! unat (count st)"
  have len: "unat (count st) < length (sequence st)"
    using inv cursor by (simp add: seq_inv_def)
  then have at: "sequence_at (sequence st) (count st) = Inr i"
    by (simp add: sequence_at_def i_def)
  have "i \<in> set (sequence st)"
    unfolding i_def using len by (rule nth_mem)
  with inv have "i \<le> 35"
    by (simp add: seq_inv_def)
  then have i37: "unat i < 37"
    by (simp add: word_le_nat_alt)
  have row: "0 \<le> NoteMode st" "nat (NoteMode st) < length (fullScales st)"
    using inv scale by (auto simp: seq_inv_def)
  then have "fullScales st ! nat (NoteMode st) \<in> set (fullScales st)"
    by simp
  with inv have "length (fullScales st ! nat (NoteMode st)) = 37"
    by (simp add: seq_inv_def)
  with row i37 have "fullScales_at (fullScales st) (NoteMode st) i =
      Inr (fullScales st ! nat (NoteMode st) ! unat i)"
    by (simp add: fullScales_at_def)
  with at i37 show ?thesis
    by blast
qed

lemma playSeq_error:
  assumes inv: "seq_inv st" and cursor: "unat (count st) < 64" and err: "playSeq rnd st = Inl e"
  shows "\<not> bounds_error e"
proof (cases "NoteMode st \<noteq> 7")
  case True
  from scale_lookup [OF inv cursor True] obtain i n
    where "sequence_at (sequence st) (count st) = Inr i"
      and "fullScales_at (fullScales st) (NoteMode st) i = Inr n"
    by blast
  with err True show ?thesis
    by (auto simp: playSeq_def split: sum.splits dest: volts_to_DAC_error)
next
  case False
  have "unat (count st) < length (sequenceLinear st)"
    using inv cursor by (simp add: seq_inv_def)
  with err False show ?thesis
    by (simp add: playSeq_def sequence_at_def)
qed

lemma constrain_bounds:
  "low \<le> high \<Longrightarrow> low \<le> constrain amt low high \<and> constrain amt low high \<le> high"
  by (simp add: constrain_def)

lemma stored_index_le:
  assumes "0 \<le> m" "m \<le> uint n"
  shows "(word_of_int m :: uint8_t) \<le> n"
proof -
  have "uint n < 2 ^ 8"
    using uint_bounded [of n] by simp
  with assms have "uint (word_of_int m :: uint8_t) = m"
    by (simp add: uint_word_of_int_eq take_bit_int_eq_self)
  with assms(2) show ?thesis
    by (simp add: word_le_def)
qed

lemma seq_inv_store:
  assumes "seq_inv st" "v \<le> 35"
  shows "seq_inv (st\<lparr>mm := m, sequence := (sequence st)[i := v]\<rparr>)"
proof -
  have "set ((sequence st)[i := v]) \<subseteq> insert v (set (sequence st))"
    by (rule set_update_subset_insert)
  with assms show ?thesis
    by (auto simp: seq_inv_def)
qed

lemma seq_inv_store_linear:
  assumes "seq_inv st"
  shows "seq_inv (st\<lparr>raw_mm := r, sequenceLinear := (sequenceLinear st)[i := v]\<rparr>)"
  using assms by (simp add: seq_inv_def)

lemma seq_inv_count: "seq_inv st \<Longrightarrow> seq_inv (st\<lparr>count := c\<rparr>)"
  by (simp add: seq_inv_def)

lemma seq_inv_clockInput: "seq_inv st \<Longrightarrow> seq_inv (st\<lparr>clockInput := b\<rparr>)"
  by (simp add: seq_inv_def)

text \<open>
  Out of range or in scale mode, \<^verbatim>\<open>recordSeq\<close> stores a note index that is at most
  \<open>NumberOfNotes\<close> and then plays; in range in linear mode it stores into
  \<open>sequenceLinear\<close> and then plays.
\<close>

lemma recordSeq_scale:
  assumes cursor: "unat (count st) < length (sequence st)"
    and scale: "mm st > TopRange \<or> mm st < 50 \<or> NoteMode st \<noteq> 7"
  shows "\<exists>m v. v \<le> NumberOfNotes st \<and>
           recordSeq rnd st =
             playSeq rnd (st\<lparr>mm := m, sequence := (sequence st)[unat (count st) := v]\<rparr>)"
proof (cases "mm st > TopRange \<or> mm st < 50")
  case True
  with cursor have "recordSeq rnd st =
      playSeq rnd (st\<lparr>mm := 0, sequence := (sequence st)[unat (count st) := 0]\<rparr>)"
    by (simp add: recordSeq_def sequence_store_def)
  moreover have "(0 :: uint8_t) \<le> NumberOfNotes st"
    by simp
  ultimately show ?thesis
    by blast
next
  case False
  define m where "m = constrain (map_long (mm st) 50 TopRange 0 (uint (NumberOfNotes st)))
                   0 (uint (NumberOfNotes st))"
  have "0 \<le> m \<and> m \<le> uint (NumberOfNotes st)"
    unfolding m_def by (rule constrain_bounds) simp
  then have "(word_of_int m :: uint8_t) \<le> NumberOfNotes st"
    by (simp add: stored_index_le)
  moreover from False scale cursor have "recordSeq rnd st =
      playSeq rnd (st\<lparr>mm := m, sequence := (sequence st)[unat (count st) := word_of_int m]\<rparr>)"
    by (simp add: recordSeq_def sequence_store_def Let_def m_def)
  ultimately show ?thesis
    by blast
qed

lemma recordSeq_linear:
  assumes cursor: "unat (count st) < length (sequenceLinear st)"
    and linear: "\<not> (mm st > TopRange \<or> mm st < 50 \<or> NoteMode st \<noteq> 7)"
  shows "\<exists>r v. recordSeq rnd st =
           playSeq rnd
             (st\<lparr>raw_mm := r, sequenceLinear := (sequenceLinear st)[unat (count st) := v]\<rparr>)"
  using assms by (auto simp: recordSeq_def sequence_store_def Let_def)

lemma recordSeq_inv:
  assumes inv: "seq_inv st" and cursor: "unat (count st) < 64"
  shows "\<forall>e. recordSeq rnd st = Inl e \<longrightarrow> \<not> bounds_error e"
    and "\<forall>st'. recordSeq rnd st = Inr st' \<longrightarrow>
           seq_inv st' \<and> count st' = count st \<and> countSize st' = countSize st \<and>
           (NoteMode st \<noteq> 7 \<longrightarrow> sequence st' ! unat (count st) \<le> NumberOfNotes st)"
proof -
  have len: "unat (count st) < length (sequence st)" "unat (count st) < length (sequenceLinear st)"
    using inv cursor by (simp_all add: seq_inv_def)
  have n35: "NumberOfNotes st \<le> 35"
    using inv by (simp add: seq_inv_def)
  have "(\<forall>e. recordSeq rnd st = Inl e \<longrightarrow> \<not> bounds_error e) \<and>
        (\<forall>st'. recordSeq rnd st = Inr st' \<longrightarrow>
           seq_inv st' \<and> count st' = count st \<and> countSize st' = countSize st \<and>
           (NoteMode st \<noteq> 7 \<longrightarrow> sequence st' ! unat (count st) \<le> NumberOfNotes st))"
  proof (cases "mm st > TopRange \<or> mm st < 50 \<or> NoteMode st \<noteq> 7")
    case True
    from recordSeq_scale [OF len(1) True] obtain m v
      where v: "v \<le> NumberOfNotes st"
        and run: "recordSeq rnd st =
          playSeq rnd (st\<lparr>mm := m, sequence := (sequence st)[unat (count st) := v]\<rparr>)"
      by blast
    define st1 where "st1 = st\<lparr>mm := m, sequence := (sequence st)[unat (count st) := v]\<rparr>"
    from v n35 have "v \<le> 35"
      by (rule order_trans)
    with inv have inv1: "seq_inv st1"
      unfolding st1_def by (rule seq_inv_store)
    have c1: "count st1 = count st" "countSize st1 = countSize st"
      and s1: "sequence st1 ! unat (count st) = v"
      using len by (simp_all add: st1_def)
    from cursor c1 have cursor1: "unat (count st1) < 64"
      by simp
    show ?thesis
      unfolding run st1_def [symmetric]
      using playSeq_error [OF inv1 cursor1] seq_inv_playSeq [OF inv1]
        playSeq_frame(1,4,5) [of rnd st1] c1 s1 v
      by auto
  next
    case False
    from recordSeq_linear [OF len(2) False] obtain r v
      where run: "recordSeq rnd st =
          playSeq rnd
            (st\<lparr>raw_mm := r, sequenceLinear := (sequenceLinear st)[unat (count st) := v]\<rparr>)"
      by blast
    define st1
      where "st1 = st\<lparr>raw_mm := r, sequenceLinear := (sequenceLinear st)[unat (count st) := v]\<rparr>"
    from inv have inv1: "seq_inv st1"
      unfolding st1_def by (rule seq_inv_store_linear)
    have c1: "count st1 = count st" "countSize st1 = countSize st"
      by (simp_all add: st1_def)
    from cursor c1 have cursor1: "unat (count st1) < 64"
      by simp
    from False have "NoteMode st = 7"
      by simp
    then show ?thesis
      unfolding run st1_def [symmetric]
      using playSeq_error [OF inv1 cursor1] seq_inv_playSeq [OF inv1]
        playSeq_frame(4,5) [of rnd st1] c1
      by auto
  qed
  then show "\<forall>e. recordSeq rnd st = Inl e \<longrightarrow> \<not> bounds_error e"
    and "\<forall>st'. recordSeq rnd st = Inr st' \<longrightarrow>
           seq_inv st' \<and> count st' = count st \<and> countSize st' = countSize st \<and>
           (NoteMode st \<noteq> 7 \<longrightarrow> sequence st' ! unat (count st) \<le> NumberOfNotes st)"
    by blast+
qed

text \<open>
  C9. In a state that satisfies the invariant \<open>seq_inv\<close> and has its cursor within 0 to
  63: in scale mode the lookup of \<^verbatim>\<open>playSeq\<close> reads \<open>sequence\<close> inside its 64 entries
  and \<open>fullScales\<close> inside the row, at a column below 37; neither \<^verbatim>\<open>playSeq\<close> nor
  \<^verbatim>\<open>recordSeq\<close> ends in an out-of-bounds access; the note index \<^verbatim>\<open>recordSeq\<close>
  stores in scale mode is at most \<open>NumberOfNotes\<close>, which is at most 35; and the
  invariant holds again after \<^verbatim>\<open>recordSeq\<close>, \<^verbatim>\<open>playSeq\<close>, \<^verbatim>\<open>scaleMode\<close>,
  \<^verbatim>\<open>loopLength\<close>, \<^verbatim>\<open>readsensor\<close> and the two interrupt handlers.
\<close>

theorem scale_lookup_in_bounds:
  assumes inv: "seq_inv st" and cursor: "unat (count st) < 64"
  shows "(NoteMode st \<noteq> 7 \<longrightarrow>
            (\<exists>i n. sequence_at (sequence st) (count st) = Inr i \<and> unat i < 37 \<and>
                   fullScales_at (fullScales st) (NoteMode st) i = Inr n)) \<and>
         (\<forall>e. playSeq rnd st = Inl e \<longrightarrow> \<not> bounds_error e) \<and>
         (\<forall>e. recordSeq rnd st = Inl e \<longrightarrow> \<not> bounds_error e) \<and>
         (\<forall>st'. recordSeq rnd st = Inr st' \<longrightarrow>
            seq_inv st' \<and> count st' = count st \<and> countSize st' = countSize st \<and>
            (NoteMode st \<noteq> 7 \<longrightarrow> sequence st' ! unat (count st) \<le> NumberOfNotes st)) \<and>
         (\<forall>st'. playSeq rnd st = Inr st' \<longrightarrow> seq_inv st' \<and> count st' = count st) \<and>
         NumberOfNotes st \<le> 35 \<and>
         seq_inv (scaleMode k st) \<and> seq_inv (loopLength k st) \<and> seq_inv (readsensor r st) \<and>
         seq_inv (gate st) \<and> seq_inv (reset st)"
proof -
  have "NumberOfNotes st \<le> 35"
    using inv by (simp add: seq_inv_def)
  moreover have "\<forall>st'. playSeq rnd st = Inr st' \<longrightarrow> seq_inv st' \<and> count st' = count st"
    using seq_inv_playSeq [OF inv] playSeq_frame(4) by blast
  moreover have "\<forall>e. playSeq rnd st = Inl e \<longrightarrow> \<not> bounds_error e"
    using playSeq_error [OF inv cursor] by blast
  moreover have "NoteMode st \<noteq> 7 \<longrightarrow>
            (\<exists>i n. sequence_at (sequence st) (count st) = Inr i \<and> unat i < 37 \<and>
                   fullScales_at (fullScales st) (NoteMode st) i = Inr n)"
    using scale_lookup [OF inv cursor] by blast
  ultimately show ?thesis
    using recordSeq_inv [OF inv cursor, of rnd] seq_inv_scaleMode [OF inv, of k]
      seq_inv_frame [OF inv]
    by blast
qed

text \<open>
  After a reset edge, in Major with a reading of 700 mm: the invariant holds, the note
  index 23 is recorded at step 0, and the invariant holds again.
\<close>

theorem scale_lookup_in_bounds_witness:
  "seq_inv (reset (scaleMode 10 (readsensor 700 power_on))) \<and>
   unat (count (reset (scaleMode 10 (readsensor 700 power_on)))) < 64 \<and>
   NumberOfNotes (reset (scaleMode 10 (readsensor 700 power_on))) \<le> 35 \<and>
   recordSeq id (reset (scaleMode 10 (readsensor 700 power_on))) =
     Inr ((reset (scaleMode 10 (readsensor 700 power_on)))
            \<lparr>mm := 23, sequence := (replicate 64 0)[0 := 23]\<rparr>) \<and>
   seq_inv ((reset (scaleMode 10 (readsensor 700 power_on)))
            \<lparr>mm := 23, sequence := (replicate 64 0)[0 := 23]\<rparr>)"
proof -
  have inv: "seq_inv (reset (scaleMode 10 (readsensor 700 power_on)))"
    by (intro seq_inv_frame seq_inv_scaleMode seq_inv_power_on)
  have cursor: "unat (count (reset (scaleMode 10 (readsensor 700 power_on)))) < 64"
    by (simp add: reset_def)
  have run: "recordSeq id (reset (scaleMode 10 (readsensor 700 power_on))) =
     Inr ((reset (scaleMode 10 (readsensor 700 power_on)))
            \<lparr>mm := 23, sequence := (replicate 64 0)[0 := 23]\<rparr>)"
    by (simp add: run_defs)
  from scale_lookup_in_bounds [OF inv cursor, of id] run inv cursor show ?thesis
    by simp
qed

subsection \<open>The main loop keeps the invariant\<close>

lemma length_counts_le_63:
  "(1 :: uint8_t) \<le> 63" "(2 :: uint8_t) \<le> 63" "(3 :: uint8_t) \<le> 63" "(7 :: uint8_t) \<le> 63"
  "(15 :: uint8_t) \<le> 63" "(31 :: uint8_t) \<le> 63"
  by (simp_all add: word_le_nat_alt)

lemma countSize_loopLength: "countSize st \<le> 63 \<Longrightarrow> countSize (loopLength k st) \<le> 63"
  by (simp add: loopLength_def length_counts_le_63)

lemma polled_inv:
  assumes "seq_inv st" "countSize st \<le> 63"
  shows "seq_inv (polled inp st)" "count (polled inp st) = count st"
    "countSize (polled inp st) \<le> 63"
  using assms
  by (auto simp: polled_def ReadKnobs_def Let_def countSize_loopLength
      intro!: seq_inv_frame seq_inv_scaleMode split: option.splits)

lemma loop_polled:
  "loop rnd inp st =
     (if clockInput (polled inp st) then
        (case (if PB5_LOW inp then recordSeq rnd ((polled inp st)\<lparr>clockInput := False\<rparr>)
               else playSeq rnd ((polled inp st)\<lparr>clockInput := False\<rparr>)) of
           Inl e \<Rightarrow> Inl e
         | Inr st3 \<Rightarrow> Inr (st3\<lparr>count := incrementAndWrapCount (count st3) (countSize st3)\<rparr>))
      else Inr (polled inp st))"
  by (simp add: loop_def polled_def Let_def)

lemma next_step:
  assumes "seq_inv st3" "countSize st3 \<le> 63"
  shows "seq_inv (st3\<lparr>count := incrementAndWrapCount (count st3) (countSize st3)\<rparr>) \<and>
      count (st3\<lparr>count := incrementAndWrapCount (count st3) (countSize st3)\<rparr>) \<le> 63 \<and>
      countSize (st3\<lparr>count := incrementAndWrapCount (count st3) (countSize st3)\<rparr>) \<le> 63"
proof -
  have "incrementAndWrapCount (count st3) (countSize st3) \<le> 63"
    using incrementAndWrapCount_le assms(2) by (rule order_trans)
  with assms show ?thesis
    by (simp add: seq_inv_count)
qed

lemma clock_edge_inv:
  assumes qinv: "seq_inv q" and qcursor: "unat (count q) < 64" and qsize: "countSize q \<le> 63"
    and run: "r = recordSeq rnd q \<or> r = playSeq rnd q"
  shows "(\<forall>e. r = Inl e \<longrightarrow> \<not> bounds_error e) \<and>
         (\<forall>st3. r = Inr st3 \<longrightarrow> seq_inv st3 \<and> countSize st3 \<le> 63)"
  using run
proof
  assume "r = recordSeq rnd q"
  with recordSeq_inv [OF qinv qcursor, of rnd] qsize show ?thesis
    by simp
next
  assume r: "r = playSeq rnd q"
  have "seq_inv st3 \<and> countSize st3 \<le> 63" if "playSeq rnd q = Inr st3" for st3
    using seq_inv_playSeq [OF qinv that] playSeq_frame(5) [OF that] qsize by simp
  with playSeq_error [OF qinv qcursor, of rnd] show ?thesis
    unfolding r by blast
qed

text \<open>
  Once the cursor is inside the arrays (after a reset edge, or after the first clock
  edge), every pass of \<^verbatim>\<open>loop()\<close> keeps it there and never reads or writes a table
  out of bounds.
\<close>

lemma loop_preserves_inv:
  assumes inv: "seq_inv st" and cursor: "count st \<le> 63" and size: "countSize st \<le> 63"
  shows "(\<forall>e. loop rnd inp st = Inl e \<longrightarrow> \<not> bounds_error e) \<and>
         (\<forall>st'. loop rnd inp st = Inr st' \<longrightarrow>
            seq_inv st' \<and> count st' \<le> 63 \<and> countSize st' \<le> 63)"
proof (cases "clockInput (polled inp st)")
  case False
  then have "loop rnd inp st = Inr (polled inp st)"
    by (simp add: loop_polled)
  with polled_inv [OF inv size, of inp] cursor show ?thesis
    by simp
next
  case True
  define q where "q = (polled inp st)\<lparr>clockInput := False\<rparr>"
  define r where "r = (if PB5_LOW inp then recordSeq rnd q else playSeq rnd q)"
  have qinv: "seq_inv q"
    unfolding q_def using polled_inv(1) [OF inv size] by (rule seq_inv_clockInput)
  have qsize: "countSize q \<le> 63" and qcount: "count q = count st"
    using polled_inv(2,3) [OF inv size, of inp] by (simp_all add: q_def)
  have qcursor: "unat (count q) < 64"
    using cursor qcount by (simp add: word_le_nat_alt)
  have run: "loop rnd inp st =
      (case r of
         Inl e \<Rightarrow> Inl e
       | Inr st3 \<Rightarrow> Inr (st3\<lparr>count := incrementAndWrapCount (count st3) (countSize st3)\<rparr>))"
    using True by (simp add: loop_polled q_def r_def)
  have "r = recordSeq rnd q \<or> r = playSeq rnd q"
    by (simp add: r_def)
  note edge = clock_edge_inv [OF qinv qcursor qsize this]
  have err: "\<not> bounds_error e" if "r = Inl e" for e
    using edge that by blast
  have ok: "seq_inv st3 \<and> countSize st3 \<le> 63" if "r = Inr st3" for st3
    using edge that by blast
  show ?thesis
  proof (cases r)
    case (Inl e)
    with err [OF Inl] show ?thesis
      unfolding run by simp
  next
    case (Inr st3)
    from ok [OF Inr] have "seq_inv st3" "countSize st3 \<le> 63"
      by simp_all
    from next_step [OF this] Inr show ?thesis
      unfolding run by simp
  qed
qed

end
